theory Spec2Isabelle
  imports Complex_Main "HOL-Library.Sublist"
begin

section \<open>Strings as the scripts use them\<close>

text \<open>
  The scripts are TypeScript run by Node. A JavaScript string is modelled as a
  \<open>string\<close> whose characters are the code units \<open>0..255\<close> (ASCII and Latin-1);
  a JavaScript number that is a count or a ratio of two counts is modelled as a
  \<open>nat\<close> or a \<open>rat\<close>. The scripts compare such ratios with the decimal
  constants 0.3, 0.4 and 0.5; for operands below \<open>2^50\<close> the comparison of the
  correctly rounded double quotient with the double constant and the comparison of
  the exact quotient with the exact constant give the same answer, so the model
  compares exact rationals.
\<close>

definition lower_char :: "char \<Rightarrow> char" where
  "lower_char c =
     (let n = (of_char c :: nat)
      in if (65 \<le> n \<and> n \<le> 90) \<or> (192 \<le> n \<and> n \<le> 222 \<and> n \<noteq> 215)
         then char_of (n + 32) else c)"

text \<open>\<open>String.prototype.toLowerCase\<close>.\<close>

definition toLowerCase :: "string \<Rightarrow> string" where
  "toLowerCase s = map lower_char s"

text \<open>The characters the regular expression class \<open>\s\<close> and \<open>trim\<close> take as white space.\<close>

definition is_ws :: "char \<Rightarrow> bool" where
  "is_ws c = (let n = (of_char c :: nat) in (9 \<le> n \<and> n \<le> 13) \<or> n = 32 \<or> n = 160)"

text \<open>\<open>String.prototype.includes\<close>: the argument occurs as a contiguous substring.\<close>

fun str_includes :: "string \<Rightarrow> string \<Rightarrow> bool" where
  "str_includes [] k = (k = [])"
| "str_includes (c # s) k = (prefix k (c # s) \<or> str_includes s k)"

text \<open>
  \<open>s.split(/\s+/)\<close>: the pieces between maximal runs of white space. A run at the
  start or at the end of the string leaves an empty piece there, and the empty
  string splits into one empty piece.
\<close>

fun split_ws :: "string \<Rightarrow> string list" where
  "split_ws [] = [[]]"
| "split_ws (c # cs) =
     (if is_ws c
      then (if cs \<noteq> [] \<and> is_ws (hd cs) then split_ws cs else [] # split_ws cs)
      else (case split_ws cs of t # ts \<Rightarrow> (c # t) # ts | [] \<Rightarrow> [[c]]))"

text \<open>\<open>s.split(d)\<close> for a one-character separator \<open>d\<close>.\<close>

fun split_char :: "char \<Rightarrow> string \<Rightarrow> string list" where
  "split_char d [] = [[]]"
| "split_char d (c # cs) =
     (if c = d then [] # split_char d cs
      else (case split_char d cs of t # ts \<Rightarrow> (c # t) # ts | [] \<Rightarrow> [[c]]))"

text \<open>\<open>String.prototype.trim\<close>.\<close>

definition trim :: "string \<Rightarrow> string" where
  "trim s = rev (dropWhile is_ws (rev (dropWhile is_ws s)))"

subsection \<open>Node's \<open>path\<close> module (POSIX)\<close>

text \<open>
  The last component of a path: trailing slashes are dropped, then everything up to
  the last remaining slash. This is \<open>path.basename(p)\<close>.
\<close>

definition last_segment :: "string \<Rightarrow> string" where
  "last_segment p =
     rev (takeWhile (\<lambda>c. c \<noteq> CHR ''/'') (dropWhile (\<lambda>c. c = CHR ''/'') (rev p)))"

text \<open>
  \<open>path.extname(p)\<close>: from the last dot of the last component to its end; empty
  when the component has no dot, when its only dot is its first character, and for
  the component \<open>..\<close>.
\<close>

definition extname :: "string \<Rightarrow> string" where
  "extname p =
     (let seg = last_segment p
      in if CHR ''.'' \<notin> set seg then []
         else let ext = rev (takeWhile (\<lambda>c. c \<noteq> CHR ''.'') (rev seg));
                  stem = take (length seg - length ext - 1) seg
              in if stem = [] \<or> seg = ''..'' then [] else CHR ''.'' # ext)"

text \<open>
  \<open>path.basename(p, suffix)\<close>: the last component, without \<open>suffix\<close> when the
  component ends with it and is longer than it; the empty string when the whole
  path is the suffix.
\<close>

definition basename :: "string \<Rightarrow> string \<Rightarrow> string" where
  "basename p suf =
     (let seg = last_segment p
      in if suf \<noteq> [] \<and> suf = p then []
         else if suf \<noteq> [] \<and> suffix suf seg \<and> suf \<noteq> seg
         then take (length seg - length suf) seg
         else seg)"

section \<open>The matching engine (map-images-to-entries)\<close>

text \<open>
  \<open>UniformEntry\<close>: \<open>e_id\<close> is \<open>_id\<close>, \<open>e_name\<close> is \<open>_name\<close>, and \<open>name_value\<close> is
  \<open>fields.name?.value\<close>, absent when \<open>fields.name\<close> is. In \<open>ImageMatch\<close> the field
  \<open>match_method\<close> is \<open>method\<close>, with \<open>Filename\<close>, \<open>AI\<close> and \<open>Manual\<close> for the tags
  \<open>'filename'\<close>, \<open>'ai'\<close> and \<open>'manual'\<close>.
\<close>

record UniformEntry =
  e_id :: string
  e_name :: string
  name_value :: "string option"

datatype method_kind = Filename | AI | Manual

record ImageMatch =
  imagePath :: string
  entryId :: string
  entryName :: string
  confidence :: rat
  match_method :: method_kind

text \<open>\<open>entry.fields.name?.value || entry._name || ''\<close>: an empty string is falsy.\<close>

definition productName :: "UniformEntry \<Rightarrow> string" where
  "productName e =
     (case name_value e of
        Some v \<Rightarrow> if v \<noteq> [] then v else e_name e
      | None \<Rightarrow> e_name e)"

text \<open>
  The filter of \<open>matchImageByFilename\<close> on one product keyword: the file name
  contains the keyword, or the keyword has more than three characters and the file
  name contains its first three.
\<close>

definition keyword_hit :: "string \<Rightarrow> string \<Rightarrow> bool" where
  "keyword_hit fileNameLower keyword =
     (str_includes fileNameLower keyword
      \<or> (length keyword > 3 \<and> str_includes fileNameLower (take 3 keyword)))"

definition matchScore :: "string \<Rightarrow> string list \<Rightarrow> nat" where
  "matchScore fileNameLower productKeywords =
     length (filter (keyword_hit fileNameLower) productKeywords)"

definition fileNameKeywords :: "string \<Rightarrow> string list" where
  "fileNameKeywords fileNameLower =
     filter (\<lambda>k. length k > 2) (split_char CHR ''-'' fileNameLower)"

definition reverseMatchScore :: "string \<Rightarrow> string \<Rightarrow> nat" where
  "reverseMatchScore fileNameLower productNameLower =
     length (filter (\<lambda>keyword. str_includes productNameLower keyword)
               (fileNameKeywords fileNameLower))"

definition productKeywords :: "UniformEntry \<Rightarrow> string list" where
  "productKeywords entry = split_ws (toLowerCase (productName entry))"

text \<open>
  \<open>matchScore / productKeywords.length\<close>, the share of the record's keywords that
  the file name hits. \<open>split\<close> never returns an empty array, so the divisor is
  positive.
\<close>

definition record_coverage :: "string \<Rightarrow> UniformEntry \<Rightarrow> rat" where
  "record_coverage fileNameLower entry =
     rat_of_nat (matchScore fileNameLower (productKeywords entry))
       / rat_of_nat (length (productKeywords entry))"

text \<open>
  \<open>reverseMatchScore / fileNameKeywords.length\<close>, the share of the file name's
  keywords that occur in the record's name. The script evaluates it only behind the
  guard \<open>fileNameKeywords.length > 0\<close>.
\<close>

definition image_coverage :: "string \<Rightarrow> UniformEntry \<Rightarrow> rat" where
  "image_coverage fileNameLower entry =
     rat_of_nat (reverseMatchScore fileNameLower (toLowerCase (productName entry)))
       / rat_of_nat (length (fileNameKeywords fileNameLower))"

text \<open>The body of the loop of \<open>matchImageByFilename\<close> for one entry.\<close>

definition match_entry :: "string \<Rightarrow> string \<Rightarrow> UniformEntry \<Rightarrow> ImageMatch option" where
  "match_entry path fileNameLower entry =
     (if matchScore fileNameLower (productKeywords entry) > 0
         \<and> record_coverage fileNameLower entry > 3 / 10
      then Some \<lparr>imagePath = path, entryId = e_id entry, entryName = productName entry,
                 confidence = record_coverage fileNameLower entry, match_method = Filename\<rparr>
      else if reverseMatchScore fileNameLower (toLowerCase (productName entry)) > 0
              \<and> length (fileNameKeywords fileNameLower) > 0
              \<and> image_coverage fileNameLower entry > 4 / 10
      then Some \<lparr>imagePath = path, entryId = e_id entry, entryName = productName entry,
                 confidence = image_coverage fileNameLower entry, match_method = Filename\<rparr>
      else None)"

text \<open>The \<open>for\<close> loop over the entries: the first entry that passes is returned.\<close>

fun match_entries :: "string \<Rightarrow> string \<Rightarrow> UniformEntry list \<Rightarrow> ImageMatch option" where
  "match_entries path fileNameLower [] = None"
| "match_entries path fileNameLower (entry # entries) =
     (case match_entry path fileNameLower entry of
        Some m \<Rightarrow> Some m
      | None \<Rightarrow> match_entries path fileNameLower entries)"

text \<open>The lower-cased file name without directory and extension.\<close>

definition fileNameLower_of :: "string \<Rightarrow> string" where
  "fileNameLower_of path = toLowerCase (basename path (extname path))"

definition matchImageByFilename :: "string \<Rightarrow> UniformEntry list \<Rightarrow> ImageMatch option" where
  "matchImageByFilename path entries = match_entries path (fileNameLower_of path) entries"

subsection \<open>The semantic matcher\<close>

text \<open>
  What the chat-completion request comes back with: the request or the reading of
  its body throws (\<open>AIThrew\<close>), the status is not a success (\<open>AINotOk\<close>), or the
  body is read and \<open>choices[0]?.message?.content\<close> is a string or is undefined.
  The prompt is built from the file name and the product names, so the remote
  service is a function \<open>ask\<close> of these two.
\<close>

datatype ai_reply = AIThrew | AINotOk | AIContent "string option"

definition key_set :: "string option \<Rightarrow> bool" where
  "key_set k = (k \<noteq> None \<and> k \<noteq> Some [])"

definition matchImageWithAI ::
  "string option \<Rightarrow> (string \<Rightarrow> string list \<Rightarrow> ai_reply) \<Rightarrow> string \<Rightarrow> string list
     \<Rightarrow> (string \<times> rat) option" where
  "matchImageWithAI openaiApiKey ask path productNames =
     (if \<not> key_set openaiApiKey then None
      else
        (case ask (basename path (extname path)) productNames of
           AIThrew \<Rightarrow> None
         | AINotOk \<Rightarrow> None
         | AIContent None \<Rightarrow> None
         | AIContent (Some content) \<Rightarrow>
             (let matchedName = toLowerCase (trim content)
              in if matchedName = [] \<or> matchedName = ''none'' then None
                 else
                   (case find (\<lambda>name. str_includes (toLowerCase name) matchedName
                                       \<or> str_includes matchedName (toLowerCase name))
                           productNames of
                      Some bestMatch \<Rightarrow>
                        if bestMatch \<noteq> [] then Some (bestMatch, 8 / 10) else None
                    | None \<Rightarrow> None))))"

text \<open>
  The body of the matching loop of \<open>run\<close> for one image. Next to the match it
  returns which matchers it called, in the order of the calls.
\<close>

datatype matcher_call = AICall | FilenameCall

definition match_image ::
  "string option \<Rightarrow> (string \<Rightarrow> string list \<Rightarrow> ai_reply) \<Rightarrow> string \<Rightarrow> UniformEntry list
     \<Rightarrow> ImageMatch option \<times> matcher_call list" where
  "match_image openaiApiKey ask path entries =
     (let (m, calls) =
        (if key_set openaiApiKey
         then
           (case matchImageWithAI openaiApiKey ask path (map productName entries) of
              Some (name, conf) \<Rightarrow>
                (case find (\<lambda>e. toLowerCase (productName e) = toLowerCase name) entries of
                   Some entry \<Rightarrow>
                     (Some \<lparr>imagePath = path, entryId = e_id entry, entryName = name,
                             confidence = conf, match_method = AI\<rparr>, [AICall])
                 | None \<Rightarrow> (None, [AICall]))
            | None \<Rightarrow> (None, [AICall]))
         else (None, []))
      in case m of
           Some found \<Rightarrow> (Some found, calls)
         | None \<Rightarrow> (matchImageByFilename path entries, calls @ [FilenameCall]))"

section \<open>Values, requests and the remote service\<close>

text \<open>
  The values that \<open>response.json()\<close> and \<open>yaml.load\<close> return. An object is the
  list of its own properties; \<open>JUndef\<close> is \<open>undefined\<close>.
\<close>

datatype json =
    JUndef
  | JNull
  | JBool bool
  | JNum int
  | JStr string
  | JArr "json list"
  | JObj "(string \<times> json) list"

fun truthy :: "json \<Rightarrow> bool" where
  "truthy JUndef = False"
| "truthy JNull = False"
| "truthy (JBool b) = b"
| "truthy (JNum n) = (n \<noteq> 0)"
| "truthy (JStr s) = (s \<noteq> [])"
| "truthy (JArr xs) = True"
| "truthy (JObj kvs) = True"

definition nullish :: "json \<Rightarrow> bool" where
  "nullish v = (v = JUndef \<or> v = JNull)"

text \<open>
  \<open>v.k\<close> for a receiver that is neither \<open>null\<close> nor \<open>undefined\<close> and a key that no
  prototype defines: the own property of an object, \<open>undefined\<close> otherwise. Where the
  receiver can be \<open>null\<close> the functions below write the TypeError out.
\<close>

fun member :: "json \<Rightarrow> string \<Rightarrow> json" where
  "member (JObj kvs) k = (case map_of kvs k of Some v \<Rightarrow> v | None \<Rightarrow> JUndef)"
| "member v k = JUndef"



datatype js_error = Error string | TypeError string


text \<open>The decimal digits of a number, as a template literal prints it.\<close>

fun show_nat :: "nat \<Rightarrow> string" where
  "show_nat n =
     (if n < 10 then [char_of (48 + n)]
      else show_nat (n div 10) @ [char_of (48 + n mod 10)])"

text \<open>
  A request is its method, its URL and its body (the value that is serialised into
  it); the headers are the same on every request of a run. \<open>fetch\<close> either throws,
  with the message of its error, or resolves to a response: its status, the text of
  its body and the value \<open>json()\<close> parses from it, \<open>None\<close> when \<open>json()\<close> throws.
  The remote service is a function of the request and of a state of its own, which
  every request may change; a run threads that state together with the list of the
  requests made so far and their outcomes.
\<close>

datatype http_method = GET | PUT | POST

datatype request = Request http_method string "json option"

datatype fetch_outcome = Threw string | Response nat string "json option"

type_synonym 'w fetch = "request \<Rightarrow> 'w \<Rightarrow> fetch_outcome \<times> 'w"

type_synonym 'w net = "'w \<times> (request \<times> fetch_outcome) list"

definition do_fetch :: "'w fetch \<Rightarrow> request \<Rightarrow> 'w net \<Rightarrow> fetch_outcome \<times> 'w net" where
  "do_fetch fetch rq s =
     (case fetch rq (fst s) of (r, w') \<Rightarrow> (r, (w', snd s @ [(rq, r)])))"

text \<open>\<open>response.ok\<close>: the status is in the range 200 to 299.\<close>

definition ok :: "nat \<Rightarrow> bool" where
  "ok status = (200 \<le> status \<and> status \<le> 299)"


subsection \<open>\<open>getProductEntries\<close>\<close>

text \<open>
  The four URL shapes of an operation: with the API base and with the host, with
  and without the version segment.
\<close>

definition endpointPatterns :: "string \<Rightarrow> string \<Rightarrow> string \<Rightarrow> string \<Rightarrow> string list" where
  "endpointPatterns apiBase apiHost projectId rest =
     [apiBase @ ''/v1/projects/'' @ projectId @ rest,
      apiHost @ ''/api/v1/projects/'' @ projectId @ rest,
      apiBase @ ''/projects/'' @ projectId @ rest,
      apiHost @ ''/api/projects/'' @ projectId @ rest]"

text \<open>
  The probing loop of \<open>getProductEntries\<close>: \<open>data\<close> stays \<open>null\<close> (\<open>None\<close>) until a
  response is ok and its body parses; then the loop breaks.
\<close>

fun probe_entries :: "'w fetch \<Rightarrow> string list \<Rightarrow> 'w net \<Rightarrow> json option \<times> 'w net" where
  "probe_entries fetch [] s = (None, s)"
| "probe_entries fetch (url # urls) s =
     (case do_fetch fetch (Request GET url None) s of
        (Threw e, s') \<Rightarrow> probe_entries fetch urls s'
      | (Response status txt body, s') \<Rightarrow>
          if ok status
          then (case body of
                  None \<Rightarrow> probe_entries fetch urls s'
                | Some data \<Rightarrow> (Some data, s'))
          else probe_entries fetch urls s')"

text \<open>
  \<open>data.results?.filter(entry => entry.contentType === 'product') || []\<close>; a
  \<open>results\<close> that is not an array has no \<open>filter\<close>, and an element that is \<open>null\<close>
  has no \<open>contentType\<close>.
\<close>

fun filter_products :: "json list \<Rightarrow> js_error + json list" where
  "filter_products [] = Inr []"
| "filter_products (entry # entries) =
     (if nullish entry
      then Inl (TypeError ''Cannot read properties of null (reading 'contentType')'')
      else (case filter_products entries of
              Inl e \<Rightarrow> Inl e
            | Inr rest \<Rightarrow>
                Inr (if member entry ''contentType'' = JStr ''product''
                     then entry # rest else rest)))"

definition getProductEntries ::
  "'w fetch \<Rightarrow> string \<Rightarrow> string \<Rightarrow> string \<Rightarrow> 'w net \<Rightarrow> (js_error + json list) \<times> 'w net" where
  "getProductEntries fetch apiBase apiHost projectId s =
     (case probe_entries fetch (endpointPatterns apiBase apiHost projectId ''/entries'') s of
        (None, s') \<Rightarrow>
          (Inl (Error ''Failed to fetch entries: Could not connect with any endpoint pattern''), s')
      | (Some data, s') \<Rightarrow>
          if \<not> truthy data
          then (Inl (Error ''Failed to fetch entries: Could not connect with any endpoint pattern''), s')
          else
            (case member data ''results'' of
               JUndef \<Rightarrow> (Inr [], s')
             | JNull \<Rightarrow> (Inr [], s')
             | JArr entries \<Rightarrow> (filter_products entries, s')
             | other \<Rightarrow> (Inl (TypeError ''data.results?.filter is not a function''), s')))"

section \<open>The upload/assign executor (update-entries-with-assets)\<close>
















record updater =
  apiKey :: string
  projectId :: string
  apiBase :: string
  apiHost :: string


subsection \<open>\<open>getEntry\<close> and \<open>updateEntryWithAsset\<close>\<close>





text \<open>\<open>{...props, k: v}\<close>: \<open>k\<close> keeps its place when \<open>props\<close> has it, else comes last.\<close>

fun set_key :: "string \<Rightarrow> json \<Rightarrow> (string \<times> json) list \<Rightarrow> (string \<times> json) list" where
  "set_key k v [] = [(k, v)]"
| "set_key k v ((k', v') # kvs) =
     (if k' = k then (k, v) # kvs else (k', v') # set_key k v kvs)"







subsection \<open>\<open>processMappings\<close>\<close>

text \<open>
  \<open>ImageMapping\<close>, an element of \<open>images\<close> in the mapping document: the fields
  \<open>filename\<close>, \<open>path\<close>, \<open>size\<close>, \<open>suggestedProduct\<close> and \<open>entryId\<close>, the last two a
  string or \<open>null\<close> (\<open>None\<close>).
\<close>

record ImageMapping =
  img_filename :: string
  img_path :: string
  img_size :: nat
  img_suggestedProduct :: "string option"
  img_entryId :: "string option"





definition is_digit :: "char \<Rightarrow> bool" where
  "is_digit c = (48 \<le> (of_char c :: nat) \<and> (of_char c :: nat) \<le> 57)"

definition digits_value :: "string \<Rightarrow> int" where
  "digits_value k = foldl (\<lambda>n c. 10 * n + ((of_char c :: int) - 48)) 0 k"







section \<open>The mapping helper (map-images-simple)\<close>

text \<open>The table \<open>productEntries\<close> of the script, in the order of its keys.\<close>

definition productEntries :: "(string \<times> string) list" where
  "productEntries =
     [(''Aarhus Accent Chair'', ''b7bfc2b0-8d40-4ccf-b3c2-e9154260753d''),
      (''Tampere Loveseat'', ''63c9b2b7-f942-420e-a2e3-f5ddc6bb14cb''),
      (''Reykjavik Bookshelf'', ''5ba66df1-ee00-4c4c-a57b-73a56bbecf13''),
      (''Trondheim Dining Table'', ''e1c62ac3-6f78-41d2-a562-ae1fa76e8c3a''),
      (''Uppsala Nightstand'', ''f60716f8-405a-48ea-a975-d6f6ec1e48fe''),
      (''Gothenburg Three-Seater'', ''d15808f9-7d2a-4b99-99f4-c765b5750631''),
      (''Malmo Sideboard'', ''c3a45fd9-107a-4bda-b6bd-48dc579b267f''),
      (''Helsinki Dining Chair'', ''f385d0e3-4320-4fc4-bad2-de6bc2b597a2''),
      (''Stockholm Platform Bed'', ''7f3848dc-56c5-4735-bddc-9ac6e7424af8''),
      (''Copenhagen Coffee Table'', ''862bbc71-e06d-49de-9516-39ade27376a1''),
      (''Bergen Lounge Chair'', ''57529878-87f5-495f-97fb-8210d7e1c5f7''),
      (''Oslo Sectional Sofa'', ''1c59b8ed-a75d-4a98-81e1-d564b5da16c2''),
      (''Walnut Dining Table'', ''536cab9e-bacb-4c2f-a6f0-28994be75e2a''),
      (''Modern Sectional Sofa'', ''0506fbab-081f-47f6-abf2-fdb8eec09240'')]"

text \<open>
  \<open>matchScore / productKeywords.length\<close> for a product name; the file name here is
  the whole lower-cased name of the file, extension included.
\<close>

definition name_coverage :: "string \<Rightarrow> string \<Rightarrow> rat" where
  "name_coverage fileNameLower name =
     rat_of_nat (matchScore fileNameLower (split_ws (toLowerCase name)))
       / rat_of_nat (length (split_ws (toLowerCase name)))"

text \<open>The inner loop over the product names for one image; it breaks at the first hit.\<close>

fun suggest_loop :: "string \<Rightarrow> (string \<times> string) list \<Rightarrow> ImageMapping \<Rightarrow> ImageMapping" where
  "suggest_loop fileNameLower [] img = img"
| "suggest_loop fileNameLower ((name, entry_id) # products) img =
     (if matchScore fileNameLower (split_ws (toLowerCase name)) > 0
         \<and> name_coverage fileNameLower name > 3 / 10
      then img\<lparr>img_suggestedProduct := Some name, img_entryId := Some entry_id\<rparr>
      else suggest_loop fileNameLower products img)"

text \<open>
  The mapping the script builds from the image files it found, each given by its
  name, its full path and its size: every image starts without a suggestion.
\<close>

definition build_mapping :: "(string \<times> string \<times> nat) list \<Rightarrow> ImageMapping list" where
  "build_mapping images =
     map (\<lambda>(name, full_path, sz).
            suggest_loop (toLowerCase name) productEntries
              \<lparr>img_filename = name, img_path = full_path, img_size = sz,
                img_suggestedProduct = None, img_entryId = None\<rparr>)
         images"

section \<open>The mapping store: the JSON text of the mapping\<close>

text \<open>
  The helper writes the mapping with \<open>JSON.stringify(mapping, null, 2)\<close> and the
  executor reads it back with \<open>JSON.parse\<close>. Both are modelled on the values of
  type \<open>json\<close>, with integers for numbers: an integer below \<open>10^21\<close> in absolute
  value is printed as its decimal digits, and a number with a fraction or an
  exponent is outside the model (the parser gives \<open>None\<close> there, as it does for an
  escape \<open>\uXXXX\<close> beyond the code unit 255).
\<close>

text \<open>The white space of the JSON grammar: space, tab, line feed, carriage return.\<close>

definition json_ws :: "char \<Rightarrow> bool" where
  "json_ws c = (c = CHR '' '' \<or> c = CHR 0x09 \<or> c = CHR 0x0A \<or> c = CHR 0x0D)"

definition skip_ws :: "string \<Rightarrow> string" where
  "skip_ws s = dropWhile json_ws s"

definition hex_digit :: "nat \<Rightarrow> char" where
  "hex_digit n = (if n < 10 then char_of (48 + n) else char_of (87 + n))"

definition hex_value :: "char \<Rightarrow> nat option" where
  "hex_value c =
     (let n = (of_char c :: nat)
      in if 48 \<le> n \<and> n \<le> 57 then Some (n - 48)
         else if 97 \<le> n \<and> n \<le> 102 then Some (n - 87)
         else if 65 \<le> n \<and> n \<le> 70 then Some (n - 55)
         else None)"

text \<open>
  \<open>QuoteJSONString\<close>: the quotation mark and the backslash are escaped, the control
  characters are written \<open>\b \t \n \f \r\<close> or \<open>\u00XX\<close> with lower-case digits, and
  every other code unit stands for itself.
\<close>

definition quote_char :: "char \<Rightarrow> string" where
  "quote_char c =
     (if c = CHR 0x22 then [CHR 0x5C, CHR 0x22]
      else if c = CHR 0x5C then [CHR 0x5C, CHR 0x5C]
      else if c = CHR 0x08 then [CHR 0x5C, CHR ''b'']
      else if c = CHR 0x09 then [CHR 0x5C, CHR ''t'']
      else if c = CHR 0x0A then [CHR 0x5C, CHR ''n'']
      else if c = CHR 0x0C then [CHR 0x5C, CHR ''f'']
      else if c = CHR 0x0D then [CHR 0x5C, CHR ''r'']
      else if (of_char c :: nat) < 32
      then [CHR 0x5C, CHR ''u'', CHR ''0'', CHR ''0'',
            hex_digit ((of_char c :: nat) div 16), hex_digit ((of_char c :: nat) mod 16)]
      else [c])"

definition quote :: "string \<Rightarrow> string" where
  "quote s = CHR 0x22 # concat (map quote_char s) @ [CHR 0x22]"

definition show_int :: "int \<Rightarrow> string" where
  "show_int i = (if i < 0 then CHR ''-'' # show_nat (nat (- i)) else show_nat (nat i))"

definition indent :: "nat \<Rightarrow> string" where
  "indent n = replicate n CHR '' ''"

text \<open>The members or elements of a non-empty object or array, joined by a separator.\<close>

fun join :: "string \<Rightarrow> string list \<Rightarrow> string" where
  "join sep [] = []"
| "join sep [x] = x"
| "join sep (x # y # ys) = x @ sep @ join sep (y # ys)"

text \<open>
  The text of a value at the indentation \<open>n\<close>, with the gap of two spaces: an empty
  array is \<open>[]\<close> and an empty object \<open>{}\<close>; otherwise every element or member
  goes on a line of its own, two spaces deeper. A member whose value is
  \<open>undefined\<close> is left out, and \<open>undefined\<close> in an array is written \<open>null\<close>.
\<close>

fun stringify :: "nat \<Rightarrow> json \<Rightarrow> string" where
  "stringify n JUndef = ''null''"
| "stringify n JNull = ''null''"
| "stringify n (JBool b) = (if b then ''true'' else ''false'')"
| "stringify n (JNum i) = show_int i"
| "stringify n (JStr s) = quote s"
| "stringify n (JArr xs) =
     (if xs = [] then ''[]''
      else ''['' @ [CHR 0x0A] @ indent (n + 2)
           @ join ('','' @ [CHR 0x0A] @ indent (n + 2)) (map (stringify (n + 2)) xs)
           @ [CHR 0x0A] @ indent n @ '']'')"
| "stringify n (JObj kvs) =
     (if filter (\<lambda>(k, v). v \<noteq> JUndef) kvs = [] then ''{}''
      else ''{'' @ [CHR 0x0A] @ indent (n + 2)
           @ join ('','' @ [CHR 0x0A] @ indent (n + 2))
               (map (\<lambda>(k, v). quote k @ '': '' @ stringify (n + 2) v)
                    (filter (\<lambda>(k, v). v \<noteq> JUndef) kvs))
           @ [CHR 0x0A] @ indent n @ ''}'')"

text \<open>\<open>JSON.stringify(v, null, 2)\<close>; it returns \<open>undefined\<close> (\<open>None\<close>) for \<open>undefined\<close>.\<close>

definition JSON_stringify :: "json \<Rightarrow> string option" where
  "JSON_stringify v = (if v = JUndef then None else Some (stringify 0 v))"


text \<open>The one-character escapes of a JSON string.\<close>

fun unescape :: "char \<Rightarrow> char option" where
  "unescape e =
     (if e = CHR 0x22 then Some (CHR 0x22)
      else if e = CHR 0x5C then Some (CHR 0x5C)
      else if e = CHR ''/'' then Some (CHR ''/'')
      else if e = CHR ''b'' then Some (CHR 0x08)
      else if e = CHR ''f'' then Some (CHR 0x0C)
      else if e = CHR ''n'' then Some (CHR 0x0A)
      else if e = CHR ''r'' then Some (CHR 0x0D)
      else if e = CHR ''t'' then Some (CHR 0x09)
      else None)"

definition cons_char :: "char \<Rightarrow> (string \<times> string) option \<Rightarrow> (string \<times> string) option" where
  "cons_char c r = map_option (\<lambda>(s, rest). (c # s, rest)) r"

text \<open>
  The characters of a string after its opening quotation mark, up to the closing
  one: the string read and the text that follows it. A raw control character ends
  the parse.
\<close>

fun parse_string :: "string \<Rightarrow> (string \<times> string) option" where
  "parse_string [] = None"
| "parse_string (c # cs) =
     (if c = CHR 0x22 then Some ([], cs)
      else if c = CHR 0x5C then
        (case cs of
           [] \<Rightarrow> None
         | e # rest \<Rightarrow>
             if e = CHR ''u''
             then (case rest of
                     a # b # c2 # d # rest' \<Rightarrow>
                       (case (hex_value a, hex_value b, hex_value c2, hex_value d) of
                          (Some x1, Some x2, Some x3, Some x4) \<Rightarrow>
                            if x1 = 0 \<and> x2 = 0
                            then cons_char (char_of (16 * x3 + x4)) (parse_string rest')
                            else None
                        | other \<Rightarrow> None)
                   | other \<Rightarrow> None)
             else (case unescape e of
                     None \<Rightarrow> None
                   | Some ch \<Rightarrow> cons_char ch (parse_string rest)))
      else if (of_char c :: nat) < 32 then None
      else cons_char c (parse_string cs))"

text \<open>
  A number: an optional minus sign and digits without a leading zero (unless the
  number is the single digit 0).
\<close>

definition parse_number :: "string \<Rightarrow> (json \<times> string) option" where
  "parse_number s =
     (let neg = (s \<noteq> [] \<and> hd s = CHR ''-'');
          s1 = (if neg then tl s else s);
          ds = takeWhile is_digit s1;
          rest = dropWhile is_digit s1
      in if ds = [] \<or> (length ds > 1 \<and> hd ds = CHR ''0'') then None
         else if rest \<noteq> [] \<and> (hd rest = CHR ''.'' \<or> hd rest = CHR ''e'' \<or> hd rest = CHR ''E'')
         then None
         else Some (JNum (if neg then - digits_value ds else digits_value ds), rest))"

text \<open>
  The object of the members read, in their order; a key that occurs again keeps its
  place and takes the later value.
\<close>

definition object_of :: "(string \<times> json) list \<Rightarrow> json" where
  "object_of kvs = JObj (foldl (\<lambda>props (k, v). set_key k v props) [] kvs)"

text \<open>
  The recursive-descent parser. Its first argument bounds the number of nested and
  successive calls; \<open>JSON_parse\<close> starts it with more than the length of the text,
  which is enough for every text, since every call consumes a character.
\<close>

fun parse_value :: "nat \<Rightarrow> string \<Rightarrow> (json \<times> string) option"
  and parse_elements :: "nat \<Rightarrow> string \<Rightarrow> (json list \<times> string) option"
  and parse_members :: "nat \<Rightarrow> string \<Rightarrow> ((string \<times> json) list \<times> string) option" where
  "parse_value 0 s = None"
| "parse_value (Suc fuel) s =
     (case skip_ws s of
        [] \<Rightarrow> None
      | c # cs \<Rightarrow>
          if c = CHR ''n'' then (if take 3 cs = ''ull'' then Some (JNull, drop 3 cs) else None)
          else if c = CHR ''t'' then (if take 3 cs = ''rue'' then Some (JBool True, drop 3 cs) else None)
          else if c = CHR ''f'' then (if take 4 cs = ''alse'' then Some (JBool False, drop 4 cs) else None)
          else if c = CHR 0x22 then map_option (\<lambda>(str, rest). (JStr str, rest)) (parse_string cs)
          else if c = CHR ''[''
          then (case skip_ws cs of
                  [] \<Rightarrow> None
                | d # ds \<Rightarrow>
                    if d = CHR '']'' then Some (JArr [], ds)
                    else map_option (\<lambda>(xs, rest). (JArr xs, rest)) (parse_elements fuel cs))
          else if c = CHR ''{''
          then (case skip_ws cs of
                  [] \<Rightarrow> None
                | d # ds \<Rightarrow>
                    if d = CHR ''}'' then Some (JObj [], ds)
                    else map_option (\<lambda>(kvs, rest). (object_of kvs, rest)) (parse_members fuel cs))
          else parse_number (c # cs))"
| "parse_elements 0 s = None"
| "parse_elements (Suc fuel) s =
     (case parse_value (Suc fuel) s of
        None \<Rightarrow> None
      | Some (x, rest) \<Rightarrow>
          (case skip_ws rest of
             [] \<Rightarrow> None
           | c # cs \<Rightarrow>
               if c = CHR '']'' then Some ([x], cs)
               else if c = CHR '',''
               then map_option (\<lambda>(xs, rest'). (x # xs, rest')) (parse_elements fuel cs)
               else None))"
| "parse_members 0 s = None"
| "parse_members (Suc fuel) s =
     (case skip_ws s of
        [] \<Rightarrow> None
      | q # cs \<Rightarrow>
          if q \<noteq> CHR 0x22 then None
          else
            (case parse_string cs of
               None \<Rightarrow> None
             | Some (k, rest) \<Rightarrow>
                 (case skip_ws rest of
                    [] \<Rightarrow> None
                  | colon # cs' \<Rightarrow>
                      if colon \<noteq> CHR '':'' then None
                      else
                        (case parse_value (Suc fuel) cs' of
                           None \<Rightarrow> None
                         | Some (v, rest') \<Rightarrow>
                             (case skip_ws rest' of
                                [] \<Rightarrow> None
                              | c # cs'' \<Rightarrow>
                                  if c = CHR ''}'' then Some ([(k, v)], cs'')
                                  else if c = CHR '',''
                                  then map_option (\<lambda>(kvs, r). ((k, v) # kvs, r)) (parse_members fuel cs'')
                                  else None)))))"

text \<open>\<open>JSON.parse\<close>: one value, with nothing but white space after it.\<close>

definition JSON_parse :: "string \<Rightarrow> json option" where
  "JSON_parse s =
     (case parse_value (Suc (length s)) s of
        None \<Rightarrow> None
      | Some (v, rest) \<Rightarrow> if skip_ws rest = [] then Some v else None)"


subsection \<open>Saving and loading the mapping\<close>

text \<open>
  The document \<open>image-mapping.json\<close> as the helper builds it: the images, each with
  its five fields, and the instructions.
\<close>

definition opt_string :: "string option \<Rightarrow> json" where
  "opt_string v = (case v of None \<Rightarrow> JNull | Some s \<Rightarrow> JStr s)"

definition image_json :: "ImageMapping \<Rightarrow> json" where
  "image_json img =
     JObj [(''filename'', JStr (img_filename img)),
           (''path'', JStr (img_path img)),
           (''size'', JNum (int (img_size img))),
           (''suggestedProduct'', opt_string (img_suggestedProduct img)),
           (''entryId'', opt_string (img_entryId img))]"

definition instructions :: json where
  "instructions =
     JArr [JStr ''1. Review the suggested mappings below'',
           JStr ''2. Update entryId for each image'',
           JStr ''3. Run the upload script (coming soon)'']"

definition mapping_document :: "ImageMapping list \<Rightarrow> json" where
  "mapping_document images =
     JObj [(''images'', JArr (map image_json images)), (''instructions'', instructions)]"

text \<open>\<open>fs.writeFileSync(mappingFile, JSON.stringify(mapping, null, 2))\<close>: the text written.\<close>

definition save_mapping :: "ImageMapping list \<Rightarrow> string" where
  "save_mapping images = stringify 0 (mapping_document images)"

text \<open>
  \<open>JSON.parse(fs.readFileSync(mappingFile, 'utf-8'))\<close> read as \<open>MappingData\<close>: the
  element of \<open>data.images\<close> as an \<open>ImageMapping\<close>, \<open>None\<close> when a field does not
  have the type the interface declares.
\<close>

definition read_opt_string :: "json \<Rightarrow> string option option" where
  "read_opt_string v = (case v of JNull \<Rightarrow> Some None | JStr s \<Rightarrow> Some (Some s) | other \<Rightarrow> None)"

definition read_image :: "json \<Rightarrow> ImageMapping option" where
  "read_image j =
     (case (member j ''filename'', member j ''path'', member j ''size'',
            read_opt_string (member j ''suggestedProduct''),
            read_opt_string (member j ''entryId'')) of
        (JStr f, JStr p, JNum n, Some sp, Some eid) \<Rightarrow>
          if n < 0 then None
          else Some \<lparr>img_filename = f, img_path = p, img_size = nat n,
                      img_suggestedProduct = sp, img_entryId = eid\<rparr>
      | other \<Rightarrow> None)"

fun read_images :: "json list \<Rightarrow> ImageMapping list option" where
  "read_images [] = Some []"
| "read_images (j # js) =
     (case read_image j of
        None \<Rightarrow> None
      | Some img \<Rightarrow> map_option (\<lambda>imgs. img # imgs) (read_images js))"

definition load_mapping :: "string \<Rightarrow> ImageMapping list option" where
  "load_mapping content =
     (case JSON_parse content of
        None \<Rightarrow> None
      | Some data \<Rightarrow>
          (case member data ''images'' of
             JArr js \<Rightarrow> read_images js
           | other \<Rightarrow> None))"

section \<open>Notions used to state the properties\<close>

text \<open>
  The outcomes of issuing a list of requests one after the other from a state of the
  remote service, and the state of the run after issuing them: what an observer of
  the network sees when exactly these requests are made, in this order.
\<close>

fun outcomes :: "'w fetch \<Rightarrow> request list \<Rightarrow> 'w \<Rightarrow> fetch_outcome list" where
  "outcomes fetch [] w = []"
| "outcomes fetch (rq # rqs) w = fst (fetch rq w) # outcomes fetch rqs (snd (fetch rq w))"

fun issue :: "'w fetch \<Rightarrow> request list \<Rightarrow> 'w net \<Rightarrow> 'w net" where
  "issue fetch [] s = s"
| "issue fetch (rq # rqs) s = issue fetch rqs (snd (do_fetch fetch rq s))"








text \<open>What a match says apart from the path it was asked about.\<close>

definition outcome_of :: "ImageMatch \<Rightarrow> string \<times> string \<times> rat \<times> method_kind" where
  "outcome_of m = (entryId m, entryName m, confidence m, match_method m)"

text \<open>
  The replies after which the semantic matcher has no answer: the call failed, the
  status was not a success, the reply had no content, or the content was the word
  \<open>none\<close> (in any case, with any white space around it).
\<close>

definition ai_declines :: "ai_reply \<Rightarrow> bool" where
  "ai_declines r =
     (case r of
        AIThrew \<Rightarrow> True
      | AINotOk \<Rightarrow> True
      | AIContent None \<Rightarrow> True
      | AIContent (Some content) \<Rightarrow> toLowerCase (trim content) = ''none'')"



text \<open>
  The values that \<open>JSON.parse\<close> can return: no \<open>undefined\<close> in them, and no key twice
  in an object.
\<close>

fun wf_json :: "json \<Rightarrow> bool" where
  "wf_json JUndef = False"
| "wf_json (JArr xs) = list_all wf_json xs"
| "wf_json (JObj kvs) = (distinct (map fst kvs) \<and> list_all (\<lambda>(k, v). wf_json v) kvs)"
| "wf_json v = True"

text \<open>A text that cannot continue a number.\<close>

definition number_end :: "string \<Rightarrow> bool" where
  "number_end rest =
     (rest = [] \<or> \<not> (is_digit (hd rest) \<or> hd rest = CHR ''.'' \<or> hd rest = CHR ''e'' \<or> hd rest = CHR ''E''))"


text \<open>
  A value is read back from its text, whatever the indentation it was written at and
  whatever follows it, when the parser has more fuel than there is text.
\<close>

definition roundtrips :: "json \<Rightarrow> bool" where
  "roundtrips x =
     (\<forall>n rest fuel. number_end rest \<longrightarrow> length (stringify n x) + length rest < fuel \<longrightarrow>
        parse_value fuel (stringify n x @ rest) = Some (x, rest))"

text \<open>The pieces of the layout of a non-empty array or object.\<close>

definition separator :: "nat \<Rightarrow> string" where
  "separator m = '','' @ [CHR 0x0A] @ indent m"

definition closing :: "nat \<Rightarrow> char \<Rightarrow> string" where
  "closing n c = [CHR 0x0A] @ indent n @ [c]"

definition member_text :: "nat \<Rightarrow> string \<times> json \<Rightarrow> string" where
  "member_text m kv = quote (fst kv) @ '': '' @ stringify m (snd kv)"

section \<open>Concrete inputs used in the examples\<close>

definition ex_aarhus :: UniformEntry where
  "ex_aarhus = \<lparr>e_id = ''r1'', e_name = ''Aarhus Accent Chair'', name_value = None\<rparr>"

definition ex_aarhus_named :: UniformEntry where
  "ex_aarhus_named = \<lparr>e_id = ''r1'', e_name = ''entry-17'', name_value = Some ''Aarhus Accent Chair''\<rparr>"

definition ex_accent_table :: UniformEntry where
  "ex_accent_table = \<lparr>e_id = ''r0'', e_name = ''Accent Table'', name_value = None\<rparr>"













definition ex_files :: "(string \<times> string \<times> nat) list" where
  "ex_files =
     [(''Aarhus-Accent-Chair.JPG'', ''/pub/Aarhus-Accent-Chair.JPG'', 1234),
      (''logo \"v2\".png'', ''/pub/logo \"v2\".png'', 0)]"

section \<open>Properties of the scripts\<close>





lemma matchScore_le: "matchScore f ks \<le> length ks"
  by (simp add: matchScore_def)

lemma reverseMatchScore_le: "reverseMatchScore f n \<le> length (fileNameKeywords f)"
  by (simp add: reverseMatchScore_def)

lemma ratio_le_one: "m \<le> n \<Longrightarrow> rat_of_nat m / rat_of_nat n \<le> 1"
  by (cases "n = 0") (simp_all add: divide_le_eq)

lemma record_coverage_le_one: "record_coverage f e \<le> 1"
  unfolding record_coverage_def by (rule ratio_le_one) (rule matchScore_le)

lemma image_coverage_le_one: "image_coverage f e \<le> 1"
  unfolding image_coverage_def by (rule ratio_le_one) (rule reverseMatchScore_le)





















lemma match_entry_confidence:
  assumes "match_entry p f e = Some m"
  shows "0 < confidence m \<and> confidence m \<le> 1 \<and> match_method m = Filename"
proof -
  have "m = \<lparr>imagePath = p, entryId = e_id e, entryName = productName e,
              confidence = record_coverage f e, match_method = Filename\<rparr> \<and> 3 / 10 < record_coverage f e
        \<or> m = \<lparr>imagePath = p, entryId = e_id e, entryName = productName e,
              confidence = image_coverage f e, match_method = Filename\<rparr> \<and> 4 / 10 < image_coverage f e"
    using assms by (auto simp: match_entry_def split: if_splits)
  then show ?thesis
    using record_coverage_le_one [of f e] image_coverage_le_one [of f e] by auto
qed

lemma match_entries_Some:
  "match_entries p f es = Some m \<Longrightarrow> \<exists>e \<in> set es. match_entry p f e = Some m"
  by (induction es) (auto split: option.splits)

lemma matchImageByFilename_confidence:
  assumes "matchImageByFilename p es = Some m"
  shows "0 < confidence m \<and> confidence m \<le> 1 \<and> match_method m = Filename"
  using assms match_entries_Some [of p "fileNameLower_of p" es m] match_entry_confidence
  unfolding matchImageByFilename_def by blast

lemma matchImageWithAI_Some:
  assumes "matchImageWithAI k ask p ns = Some (n, c)"
  shows "c = 8 / 10 \<and> n \<in> set ns \<and> key_set k"
  using assms
  by (auto simp: matchImageWithAI_def Let_def find_Some_iff
           split: if_splits ai_reply.splits option.splits)

lemma match_image_cases:
  "match_image k ask p es = (Some m, calls) \<Longrightarrow>
     (match_method m = AI \<and> confidence m = 8 / 10) \<or> matchImageByFilename p es = Some m"
  by (auto simp: match_image_def Let_def dest: matchImageWithAI_Some
           split: if_splits option.splits prod.splits)

text \<open>
  Claim C7. Whatever match the matching step returns for an image, by the semantic
  matcher or by the keyword method, its confidence is greater than 0 and at most 1.
  (No code path produces the method \<open>manual\<close>.)
\<close>

theorem confidence_in_unit_interval:
  assumes "match_image k ask p es = (Some m, calls)"
  shows "0 < confidence m \<and> confidence m \<le> 1"
  using match_image_cases [OF assms] matchImageByFilename_confidence [of p es m] by auto

lemma keyword_match_example:
  "match_image None (\<lambda>f ns. AIThrew) ''/img/aarhus-accent-chair-mustard.jpg'' [ex_aarhus]
     = (Some \<lparr>imagePath = ''/img/aarhus-accent-chair-mustard.jpg'', entryId = ''r1'',
               entryName = ''Aarhus Accent Chair'', confidence = 1, match_method = Filename\<rparr>,
        [FilenameCall])"
  by code_simp

theorem confidence_in_unit_interval_witness:
  "match_image None (\<lambda>f ns. AIThrew) ''/img/aarhus-accent-chair-mustard.jpg'' [ex_aarhus]
     = (Some \<lparr>imagePath = ''/img/aarhus-accent-chair-mustard.jpg'', entryId = ''r1'',
               entryName = ''Aarhus Accent Chair'', confidence = 1, match_method = Filename\<rparr>,
        [FilenameCall])
   \<and> 0 < confidence \<lparr>imagePath = ''/img/aarhus-accent-chair-mustard.jpg'', entryId = ''r1'',
               entryName = ''Aarhus Accent Chair'', confidence = 1, match_method = Filename\<rparr>
   \<and> confidence \<lparr>imagePath = ''/img/aarhus-accent-chair-mustard.jpg'', entryId = ''r1'',
               entryName = ''Aarhus Accent Chair'', confidence = 1, match_method = Filename\<rparr> \<le> 1"
  using confidence_in_unit_interval [OF keyword_match_example] keyword_match_example by simp

lemma find_entry_of_name:
  assumes "n \<in> set (map productName es)"
  shows "\<exists>e. find (\<lambda>e. toLowerCase (productName e) = toLowerCase n) es = Some e"
proof (cases "find (\<lambda>e. toLowerCase (productName e) = toLowerCase n) es")
  case None
  then have "\<forall>e \<in> set es. toLowerCase (productName e) \<noteq> toLowerCase n"
    by (simp add: find_None_iff)
  with assms show ?thesis by auto
next
  case (Some e)
  then show ?thesis by simp
qed

lemma matchImageWithAI_declined:
  "ai_declines (ask (basename p (extname p)) ns) \<Longrightarrow> matchImageWithAI k ask p ns = None"
  by (auto simp: matchImageWithAI_def ai_declines_def Let_def split: ai_reply.splits option.splits)

text \<open>
  Claim C8. With a semantic matcher configured, the matching step calls it first.
  When it returns a name, the match is the first entry with that name (compared in
  lower case), tagged with the method \<open>ai\<close> (the semantic method) and confidence
  0.8, and the keyword method is not called. When it returns nothing, the step
  calls the keyword method and returns what that returns; it returns nothing, and
  raises no error, when the call fails, when the status is not a success, and when
  the answer is missing or is \<open>none\<close>.
\<close>

theorem semantic_matcher_first:
  assumes "key_set k"
  shows "(\<forall>n c. matchImageWithAI k ask p (map productName es) = Some (n, c) \<longrightarrow>
            (\<exists>e. find (\<lambda>e. toLowerCase (productName e) = toLowerCase n) es = Some e
                \<and> match_image k ask p es =
                    (Some \<lparr>imagePath = p, entryId = e_id e, entryName = n,
                            confidence = 8 / 10, match_method = AI\<rparr>, [AICall])))
       \<and> (matchImageWithAI k ask p (map productName es) = None \<longrightarrow>
            match_image k ask p es = (matchImageByFilename p es, [AICall, FilenameCall]))
       \<and> (ai_declines (ask (basename p (extname p)) (map productName es)) \<longrightarrow>
            match_image k ask p es = (matchImageByFilename p es, [AICall, FilenameCall]))"
proof (intro conjI allI impI)
  fix n c
  assume ai: "matchImageWithAI k ask p (map productName es) = Some (n, c)"
  then have c: "c = 8 / 10" and n: "n \<in> set (map productName es)"
    using matchImageWithAI_Some [OF ai] by simp_all
  from find_entry_of_name [OF n] obtain e
    where e: "find (\<lambda>e. toLowerCase (productName e) = toLowerCase n) es = Some e" ..
  show "\<exists>e. find (\<lambda>e. toLowerCase (productName e) = toLowerCase n) es = Some e
          \<and> match_image k ask p es =
              (Some \<lparr>imagePath = p, entryId = e_id e, entryName = n,
                      confidence = 8 / 10, match_method = AI\<rparr>, [AICall])"
    using assms ai c e by (simp add: match_image_def)
next
  assume "matchImageWithAI k ask p (map productName es) = None"
  then show "match_image k ask p es = (matchImageByFilename p es, [AICall, FilenameCall])"
    using assms by (simp add: match_image_def)
next
  assume "ai_declines (ask (basename p (extname p)) (map productName es))"
  then have "matchImageWithAI k ask p (map productName es) = None"
    by (rule matchImageWithAI_declined)
  then show "match_image k ask p es = (matchImageByFilename p es, [AICall, FilenameCall])"
    using assms by (simp add: match_image_def)
qed

lemma semantic_answer_example:
  "matchImageWithAI (Some ''sk'') (\<lambda>f ns. AIContent (Some '' Aarhus accent chair ''))
      ''/img/IMG_0042.jpg'' (map productName [ex_accent_table, ex_aarhus])
     = Some (''Aarhus Accent Chair'', 8 / 10)"
  by code_simp

lemma semantic_entry_example:
  "find (\<lambda>e. toLowerCase (productName e) = toLowerCase ''Aarhus Accent Chair'')
        [ex_accent_table, ex_aarhus] = Some ex_aarhus
   \<and> e_id ex_aarhus = ''r1''"
  by code_simp

lemma semantic_none_example:
  "ai_declines ((\<lambda>f ns. AIContent (Some '' None '')) (basename ''/img/IMG_0042.jpg'' (extname ''/img/IMG_0042.jpg''))
      (map productName [ex_accent_table, ex_aarhus]))"
  by code_simp

lemma semantic_fallback_example:
  "matchImageByFilename ''/img/IMG_0042.jpg'' [ex_accent_table, ex_aarhus] = None"
  by code_simp

theorem semantic_matcher_first_witness:
  "match_image (Some ''sk'') (\<lambda>f ns. AIContent (Some '' Aarhus accent chair ''))
      ''/img/IMG_0042.jpg'' [ex_accent_table, ex_aarhus]
     = (Some \<lparr>imagePath = ''/img/IMG_0042.jpg'', entryId = ''r1'',
               entryName = ''Aarhus Accent Chair'', confidence = 8 / 10, match_method = AI\<rparr>, [AICall])
   \<and> match_image (Some ''sk'') (\<lambda>f ns. AIContent (Some '' None ''))
      ''/img/IMG_0042.jpg'' [ex_accent_table, ex_aarhus]
     = (None, [AICall, FilenameCall])"
proof -
  have k: "key_set (Some ''sk'')" by (simp add: key_set_def)
  from semantic_matcher_first [OF k, of "\<lambda>f ns. AIContent (Some '' Aarhus accent chair '')"
            "''/img/IMG_0042.jpg''" "[ex_accent_table, ex_aarhus]"]
    semantic_answer_example
  obtain e where
    "find (\<lambda>e. toLowerCase (productName e) = toLowerCase ''Aarhus Accent Chair'')
        [ex_accent_table, ex_aarhus] = Some e"
    "match_image (Some ''sk'') (\<lambda>f ns. AIContent (Some '' Aarhus accent chair ''))
       ''/img/IMG_0042.jpg'' [ex_accent_table, ex_aarhus]
      = (Some \<lparr>imagePath = ''/img/IMG_0042.jpg'', entryId = e_id e,
                entryName = ''Aarhus Accent Chair'', confidence = 8 / 10, match_method = AI\<rparr>, [AICall])"
    by blast
  then have first: "match_image (Some ''sk'') (\<lambda>f ns. AIContent (Some '' Aarhus accent chair ''))
       ''/img/IMG_0042.jpg'' [ex_accent_table, ex_aarhus]
      = (Some \<lparr>imagePath = ''/img/IMG_0042.jpg'', entryId = ''r1'',
                entryName = ''Aarhus Accent Chair'', confidence = 8 / 10, match_method = AI\<rparr>, [AICall])"
    using semantic_entry_example by simp
  from semantic_matcher_first [OF k, of "\<lambda>f ns. AIContent (Some '' None '')"
            "''/img/IMG_0042.jpg''" "[ex_accent_table, ex_aarhus]"]
    semantic_none_example
  have "match_image (Some ''sk'') (\<lambda>f ns. AIContent (Some '' None ''))
      ''/img/IMG_0042.jpg'' [ex_accent_table, ex_aarhus]
     = (matchImageByFilename ''/img/IMG_0042.jpg'' [ex_accent_table, ex_aarhus], [AICall, FilenameCall])"
    by blast
  then have second: "match_image (Some ''sk'') (\<lambda>f ns. AIContent (Some '' None ''))
      ''/img/IMG_0042.jpg'' [ex_accent_table, ex_aarhus]
     = (None, [AICall, FilenameCall])"
    by (simp only: semantic_fallback_example)
  from first second show ?thesis by (rule conjI)
qed

lemma length_last_segment: "length (last_segment p) \<le> length p"
proof -
  have "length (takeWhile (\<lambda>c. c \<noteq> CHR ''/'') (dropWhile (\<lambda>c. c = CHR ''/'') (rev p)))
          \<le> length (dropWhile (\<lambda>c. c = CHR ''/'') (rev p))"
    by (rule length_takeWhile_le)
  also have "\<dots> \<le> length (rev p)" by (rule length_dropWhile_le)
  finally show ?thesis by (simp add: last_segment_def)
qed

lemma extname_shorter: "extname p \<noteq> [] \<Longrightarrow> length (extname p) < length p"
proof -
  assume ne: "extname p \<noteq> []"
  let ?seg = "last_segment p"
  let ?ext = "rev (takeWhile (\<lambda>c. c \<noteq> CHR ''.'') (rev ?seg))"
  from ne have stem: "take (length ?seg - length ?ext - 1) ?seg \<noteq> []"
    and ex: "extname p = CHR ''.'' # ?ext"
    by (auto simp: extname_def Let_def split: if_splits)
  from stem have "length ?ext + 1 < length ?seg" by (cases "length ?seg - length ?ext - 1") auto
  then show ?thesis using length_last_segment [of p] ex by simp
qed

lemma fileNameLower_of_segment:
  assumes "last_segment p1 = last_segment p2"
  shows "fileNameLower_of p1 = fileNameLower_of p2"
proof -
  have ext: "extname p1 = extname p2" using assms by (simp add: extname_def)
  have "basename p1 (extname p1) = basename p2 (extname p2)"
  proof (cases "extname p1 = []")
    case True
    then show ?thesis using ext assms by (simp add: basename_def)
  next
    case False
    then have "extname p1 \<noteq> p1" "extname p2 \<noteq> p2"
      using extname_shorter [of p1] extname_shorter [of p2] ext by auto
    then show ?thesis using ext assms by (simp add: basename_def)
  qed
  then show ?thesis by (simp add: fileNameLower_of_def)
qed

lemma match_entry_outcome:
  assumes "e_id e1 = e_id e2" and "productName e1 = productName e2"
  shows "map_option outcome_of (match_entry p1 f e1) = map_option outcome_of (match_entry p2 f e2)"
  using assms
  by (simp add: match_entry_def record_coverage_def image_coverage_def productKeywords_def
        outcome_of_def)

lemma match_entries_outcome:
  assumes "map (\<lambda>e. (e_id e, productName e)) es1 = map (\<lambda>e. (e_id e, productName e)) es2"
  shows "map_option outcome_of (match_entries p1 f es1) = map_option outcome_of (match_entries p2 f es2)"
  using assms
proof (induction es1 arbitrary: es2)
  case Nil
  then show ?case by simp
next
  case (Cons e1 es1)
  then obtain e2 es2' where es2: "es2 = e2 # es2'" by (cases es2) auto
  with Cons.prems have same: "e_id e1 = e_id e2" "productName e1 = productName e2"
    and rest: "map (\<lambda>e. (e_id e, productName e)) es1 = map (\<lambda>e. (e_id e, productName e)) es2'"
    by simp_all
  have step: "map_option outcome_of (match_entry p1 f e1) = map_option outcome_of (match_entry p2 f e2)"
    using same by (rule match_entry_outcome)
  show ?case
  proof (cases "match_entry p1 f e1")
    case None
    with step have "match_entry p2 f e2 = None" by simp
    with None show ?thesis using Cons.IH [OF rest] es2 by simp
  next
    case (Some m1)
    with step obtain m2 where "match_entry p2 f e2 = Some m2" by (cases "match_entry p2 f e2") auto
    with Some step show ?thesis using es2 by simp
  qed
qed

text \<open>
  Claim C10. The keyword method is a function of the last component of the image
  path and of the ids and display names of the entries, in their order: two paths
  with the same last component, and two entry lists with the same ids and names,
  give the same entry id, entry name, confidence and method. The function has no
  other input; it never reads the file.
\<close>

theorem keyword_match_reads_names_only:
  assumes "last_segment p1 = last_segment p2"
    and "map (\<lambda>e. (e_id e, productName e)) es1 = map (\<lambda>e. (e_id e, productName e)) es2"
  shows "map_option outcome_of (matchImageByFilename p1 es1)
           = map_option outcome_of (matchImageByFilename p2 es2)"
  unfolding matchImageByFilename_def fileNameLower_of_segment [OF assms(1)]
  using assms(2) by (rule match_entries_outcome)


lemma same_base_name_example:
  "last_segment ''/srv/a/aarhus-chair.jpg'' = last_segment ''/tmp/b/c/aarhus-chair.jpg''
   \<and> map (\<lambda>e. (e_id e, productName e)) [ex_aarhus]
       = map (\<lambda>e. (e_id e, productName e)) [ex_aarhus_named]
   \<and> map_option outcome_of (matchImageByFilename ''/srv/a/aarhus-chair.jpg'' [ex_aarhus])
       = Some (''r1'', ''Aarhus Accent Chair'', 2 / 3, Filename)"
  by code_simp

theorem keyword_match_reads_names_only_witness:
  "map_option outcome_of (matchImageByFilename ''/tmp/b/c/aarhus-chair.jpg'' [ex_aarhus_named])
     = Some (''r1'', ''Aarhus Accent Chair'', 2 / 3, Filename)"
proof -
  have p: "last_segment ''/srv/a/aarhus-chair.jpg'' = last_segment ''/tmp/b/c/aarhus-chair.jpg''"
    and es: "map (\<lambda>e. (e_id e, productName e)) [ex_aarhus]
               = map (\<lambda>e. (e_id e, productName e)) [ex_aarhus_named]"
    using same_base_name_example by simp_all
  show ?thesis
    using keyword_match_reads_names_only [OF p es] same_base_name_example by simp
qed

lemma do_fetch_eq:
  "do_fetch fetch rq s = (fst (fetch rq (fst s)), (snd (fetch rq (fst s)), snd s @ [(rq, fst (fetch rq (fst s)))]))"
  by (simp add: do_fetch_def split: prod.splits)

lemma issue_log: "snd (issue fetch rqs s) = snd s @ zip rqs (outcomes fetch rqs (fst s))"
  by (induction rqs arbitrary: s) (simp_all add: do_fetch_eq)

lemma fst_issue: "fst (issue fetch rqs (w, l)) = fst (issue fetch rqs (w, l'))"
  by (induction rqs arbitrary: w l l') (simp_all add: do_fetch_eq)


lemma length_outcomes [simp]: "length (outcomes fetch rqs w) = length rqs"
  by (induction rqs arbitrary: w) simp_all







































subsection \<open>The mapping store\<close>

lemma hex_value_hex_digit: "k < 16 \<Longrightarrow> hex_value (hex_digit k) = Some k"
  by (simp add: hex_value_def hex_digit_def Let_def)

lemma hex_value_zero: "hex_value CHR ''0'' = Some 0"
  by (simp add: hex_value_def)

lemma parse_string_quote_char:
  "parse_string (quote_char c @ t) = cons_char c (parse_string t)"
proof -
  let ?n = "of_char c :: nat"
  consider (special) "c = CHR 0x22 \<or> c = CHR 0x5C \<or> c = CHR 0x08 \<or> c = CHR 0x09 \<or> c = CHR 0x0A
                      \<or> c = CHR 0x0C \<or> c = CHR 0x0D"
    | (control) "c \<noteq> CHR 0x22" "c \<noteq> CHR 0x5C" "c \<noteq> CHR 0x08" "c \<noteq> CHR 0x09" "c \<noteq> CHR 0x0A"
                "c \<noteq> CHR 0x0C" "c \<noteq> CHR 0x0D" "?n < 32"
    | (plain) "c \<noteq> CHR 0x22" "c \<noteq> CHR 0x5C" "\<not> ?n < 32"
    by blast
  then show ?thesis
  proof cases
    case special
    then show ?thesis by (auto simp: quote_char_def)
  next
    case control
    have d: "?n div 16 < 16" "?n mod 16 < 16" using control(8) by simp_all
    have rebuilt: "char_of (16 * (?n div 16) + ?n mod 16) = c" by simp
    show ?thesis
      using control rebuilt
      by (simp add: quote_char_def hex_value_hex_digit [OF d(1)] hex_value_hex_digit [OF d(2)]
            hex_value_zero)
  next
    case plain
    then show ?thesis by (auto simp: quote_char_def)
  qed
qed

lemma parse_string_quoted:
  "parse_string (concat (map quote_char s) @ CHR 0x22 # rest) = Some (s, rest)"
  by (induction s) (simp_all add: parse_string_quote_char cons_char_def)


declare show_nat.simps [simp del]

lemma digit_char:
  assumes "d < 10"
  shows "is_digit (char_of (48 + d)) \<and> (of_char (char_of (48 + d)) :: int) - 48 = int d"
proof -
  have "(of_char (char_of (48 + d)) :: nat) = 48 + d" using assms by simp
  moreover have "(of_char (char_of (48 + d)) :: int) = int (of_char (char_of (48 + d)) :: nat)"
    by (simp only: of_nat_of_char)
  ultimately show ?thesis using assms by (simp add: is_digit_def)
qed

lemma show_nat_unfold:
  "show_nat n = (if n < 10 then [char_of (48 + n)] else show_nat (n div 10) @ [char_of (48 + n mod 10)])"
  by (subst show_nat.simps) (rule refl)

lemma show_nat_not_Nil: "show_nat n \<noteq> []"
  by (subst show_nat_unfold) simp

lemma show_nat_digits: "list_all is_digit (show_nat n)"
proof (induction n rule: show_nat.induct)
  case (1 n)
  show ?case
  proof (cases "n < 10")
    case True
    then show ?thesis using digit_char [of n] by (subst show_nat_unfold) simp
  next
    case False
    then show ?thesis
      using 1 digit_char [of "n mod 10"] by (subst show_nat_unfold) simp
  qed
qed

lemma digits_value_snoc:
  "digits_value (ds @ [c]) = 10 * digits_value ds + ((of_char c :: int) - 48)"
  by (simp add: digits_value_def)

lemma digits_value_show_nat: "digits_value (show_nat n) = int n"
proof (induction n rule: show_nat.induct)
  case (1 n)
  show ?case
  proof (cases "n < 10")
    case True
    then show ?thesis
      using digit_char [of n] by (subst show_nat_unfold) (simp add: digits_value_def)
  next
    case False
    have "digits_value (show_nat n) = 10 * digits_value (show_nat (n div 10)) + int (n mod 10)"
      using False digit_char [of "n mod 10"]
      by (subst show_nat_unfold) (simp add: digits_value_snoc)
    also have "\<dots> = 10 * int (n div 10) + int (n mod 10)" using 1 False by simp
    also have "\<dots> = int n" by presburger
    finally show ?thesis .
  qed
qed

lemma show_nat_no_leading_zero: "0 < n \<Longrightarrow> hd (show_nat n) \<noteq> CHR ''0''"
proof (induction n rule: show_nat.induct)
  case (1 n)
  show ?case
  proof (cases "n < 10")
    case True
    have "(of_char (char_of (48 + n)) :: nat) \<noteq> of_char CHR ''0''"
      using True "1.prems" by simp
    then have "char_of (48 + n) \<noteq> CHR ''0''" by metis
    then show ?thesis using True by (subst show_nat_unfold) simp
  next
    case False
    then have "0 < n div 10" by simp
    with 1 False have "hd (show_nat (n div 10)) \<noteq> CHR ''0''" by simp
    then show ?thesis
      using False show_nat_not_Nil [of "n div 10"] by (subst show_nat_unfold) simp
  qed
qed

lemma length_show_nat_one: "n < 10 \<Longrightarrow> length (show_nat n) = 1"
  by (subst show_nat_unfold) simp

lemma show_nat_canonical: "\<not> (length (show_nat n) > 1 \<and> hd (show_nat n) = CHR ''0'')"
proof (cases "n = 0")
  case True
  then show ?thesis using length_show_nat_one [of n] by simp
next
  case False
  then show ?thesis using show_nat_no_leading_zero [of n] by simp
qed

lemma takeWhile_digits:
  assumes "list_all is_digit ds" and "rest = [] \<or> \<not> is_digit (hd rest)"
  shows "takeWhile is_digit (ds @ rest) = ds \<and> dropWhile is_digit (ds @ rest) = rest"
proof -
  have "\<forall>c \<in> set ds. is_digit c" using assms(1) by (simp add: list_all_iff)
  moreover have "takeWhile is_digit rest = [] \<and> dropWhile is_digit rest = rest"
    using assms(2) by (cases rest) auto
  ultimately show ?thesis by (simp add: takeWhile_append2 dropWhile_append2)
qed

lemma hd_show_nat_digit: "is_digit (hd (show_nat n))"
  using show_nat_digits [of n] show_nat_not_Nil [of n] by (cases "show_nat n") simp_all

lemma digit_not_minus: "is_digit c \<Longrightarrow> c \<noteq> CHR ''-''"
  by (auto simp: is_digit_def)

lemma parse_number_show_nat:
  assumes "number_end rest"
  shows "parse_number (show_nat n @ rest) = Some (JNum (int n), rest)"
proof -
  have nd: "rest = [] \<or> \<not> is_digit (hd rest)" using assms by (auto simp: number_end_def)
  have hd_app: "hd (show_nat n @ rest) = hd (show_nat n)" using show_nat_not_Nil [of n] by simp
  have neg: "\<not> (show_nat n @ rest \<noteq> [] \<and> hd (show_nat n @ rest) = CHR ''-'')"
    using hd_show_nat_digit [of n] digit_not_minus hd_app by metis
  have tw: "takeWhile is_digit (show_nat n @ rest) = show_nat n"
    and dw: "dropWhile is_digit (show_nat n @ rest) = rest"
    using takeWhile_digits [OF show_nat_digits nd] by simp_all
  show ?thesis
    using neg assms show_nat_not_Nil [of n] show_nat_canonical [of n]
    by (auto simp add: parse_number_def Let_def tw dw digits_value_show_nat number_end_def
          simp del: hd_append2)
qed

lemma parse_number_show_int:
  assumes "number_end rest"
  shows "parse_number (show_int i @ rest) = Some (JNum i, rest)"
proof (cases "i < 0")
  case False
  then show ?thesis using parse_number_show_nat [OF assms, of "nat i"] by (simp add: show_int_def)
next
  case True
  let ?n = "nat (- i)"
  have nd: "rest = [] \<or> \<not> is_digit (hd rest)" using assms by (auto simp: number_end_def)
  have tw: "takeWhile is_digit (show_nat ?n @ rest) = show_nat ?n"
    and dw: "dropWhile is_digit (show_nat ?n @ rest) = rest"
    using takeWhile_digits [OF show_nat_digits nd] by simp_all
  have "parse_number (CHR ''-'' # show_nat ?n @ rest) = Some (JNum (- int ?n), rest)"
    using assms show_nat_not_Nil [of ?n] show_nat_canonical [of ?n]
    by (auto simp add: parse_number_def Let_def tw dw digits_value_show_nat number_end_def)
  then show ?thesis using True by (simp add: show_int_def)
qed


lemma skip_ws_append: "list_all json_ws w \<Longrightarrow> skip_ws (w @ s) = skip_ws s"
  by (simp add: skip_ws_def list_all_iff dropWhile_append2)

lemma skip_ws_Cons: "\<not> json_ws c \<Longrightarrow> skip_ws (c # s) = c # s"
  by (simp add: skip_ws_def)

lemma ws_indent: "list_all json_ws (CHR 0x0A # indent n)"
  by (simp add: list_all_iff indent_def json_ws_def)

lemma skip_ws_closing: "\<not> json_ws c \<Longrightarrow> skip_ws (closing n c @ rest) = c # rest"
  using skip_ws_append [OF ws_indent, of n "c # rest"] by (simp add: closing_def skip_ws_Cons)

lemma skip_ws_separator: "skip_ws (separator m @ s) = CHR '','' # CHR 0x0A # indent m @ s"
  by (simp add: separator_def skip_ws_Cons json_ws_def)

declare parse_value.simps [simp del] parse_elements.simps [simp del] parse_members.simps [simp del]

lemma parse_value_skip_ws: "list_all json_ws w \<Longrightarrow> parse_value fuel (w @ s) = parse_value fuel s"
  by (cases fuel) (simp_all add: parse_value.simps skip_ws_append)

lemma parse_members_skip_ws: "list_all json_ws w \<Longrightarrow> parse_members fuel (w @ s) = parse_members fuel s"
  by (cases fuel) (simp_all add: parse_members.simps skip_ws_append)

lemma parse_elements_skip_ws: "list_all json_ws w \<Longrightarrow> parse_elements fuel (w @ s) = parse_elements fuel s"
  by (cases fuel) (simp_all add: parse_elements.simps parse_value_skip_ws)

lemma number_end_closing: "number_end (closing n c @ rest)"
  by (simp add: number_end_def closing_def is_digit_def)

lemma number_end_separator: "number_end (separator m @ s)"
  by (simp add: number_end_def separator_def is_digit_def)

lemma length_closing: "length (closing n c) = n + 2"
  by (simp add: closing_def indent_def)

lemma length_separator: "length (separator m) = m + 2"
  by (simp add: separator_def indent_def)

lemma parse_elements_join:
  assumes "\<forall>x \<in> set xs. roundtrips x" and "xs \<noteq> []"
    and "length (join (separator m) (map (stringify m) xs)) + length (closing n CHR '']'') + length rest < fuel"
  shows "parse_elements fuel (join (separator m) (map (stringify m) xs) @ closing n CHR '']'' @ rest)
           = Some (xs, rest)"
  using assms
proof (induction xs arbitrary: fuel)
  case Nil
  then show ?case by simp
next
  case (Cons x xs)
  from Cons.prems(3) obtain f where fuel: "fuel = Suc f" by (cases fuel) auto
  have rt: "roundtrips x" using Cons.prems(1) by simp
  show ?case
  proof (cases xs)
    case Nil
    have bound: "length (stringify m x) + length (closing n CHR '']'' @ rest) < Suc f"
      using Cons.prems(3) Nil fuel by simp
    have "parse_value (Suc f) (stringify m x @ closing n CHR '']'' @ rest)
            = Some (x, closing n CHR '']'' @ rest)"
      using rt number_end_closing bound unfolding roundtrips_def by blast
    then show ?thesis
      using Nil fuel by (simp add: parse_elements.simps skip_ws_closing json_ws_def)
  next
    case (Cons y ys)
    let ?tail = "join (separator m) (map (stringify m) (y # ys)) @ closing n CHR '']'' @ rest"
    have bound: "length (stringify m x) + length (separator m @ ?tail) < Suc f"
      using Cons.prems(3) Cons fuel by simp
    have first: "parse_value (Suc f) (stringify m x @ separator m @ ?tail)
            = Some (x, separator m @ ?tail)"
      using rt number_end_separator bound unfolding roundtrips_def by blast
    have bound': "length (join (separator m) (map (stringify m) xs)) + length (closing n CHR '']'') + length rest < f"
      using Cons.prems(3) Cons fuel by (simp add: length_separator)
    have "parse_elements f ?tail = Some (xs, rest)"
      using Cons.IH [of f] Cons.prems(1) bound' Cons by simp
    then have more: "parse_elements f (CHR 0x0A # indent m @ ?tail) = Some (xs, rest)"
      using parse_elements_skip_ws [OF ws_indent, of f m ?tail] by simp
    show ?thesis
      using Cons fuel first more by (simp add: parse_elements.simps skip_ws_separator)
  qed
qed


lemma parse_members_join:
  assumes "\<forall>kv \<in> set kvs. roundtrips (snd kv)" and "kvs \<noteq> []"
    and "length (join (separator m) (map (member_text m) kvs)) + length (closing n CHR ''}'') + length rest < fuel"
  shows "parse_members fuel (join (separator m) (map (member_text m) kvs) @ closing n CHR ''}'' @ rest)
           = Some (kvs, rest)"
  using assms
proof (induction kvs arbitrary: fuel)
  case Nil
  then show ?case by simp
next
  case (Cons kv kvs)
  obtain k v where kv: "kv = (k, v)" by (cases kv)
  from Cons.prems(3) obtain f where fuel: "fuel = Suc f" by (cases fuel) auto
  have rt: "roundtrips v" using Cons.prems(1) kv by simp
  have key: "\<And>t. parse_string (concat (map quote_char k) @ CHR 0x22 # t) = Some (k, t)"
    by (rule parse_string_quoted)
  have sp: "list_all json_ws '' ''" by (simp add: json_ws_def)
  have layout: "\<And>t. member_text m kv @ t
                 = CHR 0x22 # concat (map quote_char k) @ CHR 0x22 # CHR '':'' # CHR '' '' # stringify m v @ t"
    by (simp add: member_text_def quote_def kv)
  have len: "length (member_text m kv) = length (stringify m v) + length (quote k) + 2"
    by (simp add: member_text_def kv)
  show ?case
  proof (cases kvs)
    case Nil
    let ?tail = "closing n CHR ''}'' @ rest"
    have bound: "length (stringify m v) + length ?tail < Suc f"
      using Cons.prems(3) Nil fuel len by simp
    have "parse_value (Suc f) (stringify m v @ ?tail) = Some (v, ?tail)"
      using rt number_end_closing bound unfolding roundtrips_def by blast
    then have val: "parse_value (Suc f) (CHR '' '' # stringify m v @ ?tail) = Some (v, ?tail)"
      using parse_value_skip_ws [OF sp, of "Suc f" "stringify m v @ ?tail"] by simp
    have "parse_members (Suc f) (member_text m kv @ ?tail) = Some ([(k, v)], rest)"
      unfolding layout
      by (simp add: parse_members.simps skip_ws_Cons json_ws_def key val skip_ws_closing)
    then show ?thesis using Nil fuel kv by simp
  next
    case (Cons kv' kvs')
    let ?more = "join (separator m) (map (member_text m) kvs) @ closing n CHR ''}'' @ rest"
    let ?tail = "separator m @ ?more"
    have bound: "length (stringify m v) + length ?tail < Suc f"
      using Cons.prems(3) Cons fuel len by simp
    have "parse_value (Suc f) (stringify m v @ ?tail) = Some (v, ?tail)"
      using rt number_end_separator bound unfolding roundtrips_def by blast
    then have val: "parse_value (Suc f) (CHR '' '' # stringify m v @ ?tail) = Some (v, ?tail)"
      using parse_value_skip_ws [OF sp, of "Suc f" "stringify m v @ ?tail"] by simp
    have bound': "length (join (separator m) (map (member_text m) kvs)) + length (closing n CHR ''}'') + length rest < f"
      using Cons.prems(3) Cons fuel len by (simp add: length_separator)
    have "parse_members f ?more = Some (kvs, rest)"
      using Cons.IH [of f] Cons.prems(1) bound' Cons by simp
    then have rest_members: "parse_members f (CHR 0x0A # indent m @ ?more) = Some (kvs, rest)"
      using parse_members_skip_ws [OF ws_indent, of f m ?more] by simp
    have "parse_members (Suc f) (member_text m kv @ ?tail) = Some ((k, v) # kvs, rest)"
      unfolding layout
      by (simp add: parse_members.simps skip_ws_Cons json_ws_def key val skip_ws_separator
            rest_members)
    then show ?thesis using Cons fuel kv by simp
  qed
qed

lemma set_key_fresh: "k \<notin> fst ` set props \<Longrightarrow> set_key k v props = props @ [(k, v)]"
  by (induction props) auto

lemma foldl_set_key_distinct:
  "distinct (map fst (props @ kvs)) \<Longrightarrow>
     foldl (\<lambda>props (k, v). set_key k v props) props kvs = props @ kvs"
proof (induction kvs arbitrary: props)
  case Nil
  then show ?case by simp
next
  case (Cons kv kvs)
  obtain k v where kv: "kv = (k, v)" by (cases kv)
  have fresh: "k \<notin> fst ` set props" using Cons.prems kv by auto
  have "distinct (map fst ((props @ [(k, v)]) @ kvs))" using Cons.prems kv by simp
  from Cons.IH [OF this] show ?case using kv fresh by (simp add: set_key_fresh)
qed

lemma object_of_distinct: "distinct (map fst kvs) \<Longrightarrow> object_of kvs = JObj kvs"
  using foldl_set_key_distinct [of "[]" kvs] by (simp add: object_of_def)

lemma show_int_head: "\<exists>c cs. show_int i = c # cs \<and> (c = CHR ''-'' \<or> is_digit c)"
proof (cases "i < 0")
  case True
  then show ?thesis by (simp add: show_int_def)
next
  case False
  obtain c cs where "show_nat (nat i) = c # cs"
    using show_nat_not_Nil [of "nat i"] by (cases "show_nat (nat i)") auto
  moreover from this have "is_digit c" using hd_show_nat_digit [of "nat i"] by simp
  ultimately show ?thesis using False by (simp add: show_int_def)
qed

lemma number_start:
  assumes "c = CHR ''-'' \<or> is_digit c"
  shows "\<not> json_ws c \<and> c \<noteq> CHR ''n'' \<and> c \<noteq> CHR ''t'' \<and> c \<noteq> CHR ''f'' \<and> c \<noteq> CHR 0x22
         \<and> c \<noteq> CHR ''['' \<and> c \<noteq> CHR ''{'' \<and> c \<noteq> CHR '']''"
  using assms by (auto simp: is_digit_def json_ws_def)

lemma stringify_head:
  "\<exists>c cs. stringify n j = c # cs \<and> \<not> json_ws c \<and> c \<noteq> CHR '']''"
proof (cases j)
  case (JNum i)
  from show_int_head [of i] obtain c cs where "show_int i = c # cs" "c = CHR ''-'' \<or> is_digit c"
    by blast
  then show ?thesis using JNum number_start [of c] by simp
qed (simp_all add: json_ws_def quote_def)

lemma join_head:
  assumes "xs \<noteq> []"
  shows "\<exists>c cs. join sep (map (stringify m) xs) @ t = c # cs \<and> \<not> json_ws c \<and> c \<noteq> CHR '']''"
proof -
  obtain x ys where xs: "xs = x # ys" using assms by (cases xs) auto
  from stringify_head [of m x] obtain c cs where h: "stringify m x = c # cs" "\<not> json_ws c" "c \<noteq> CHR '']''"
    by blast
  show ?thesis using xs h by (cases ys) simp_all
qed


lemma wf_not_undef: "wf_json v \<Longrightarrow> v \<noteq> JUndef"
  by (cases v) simp_all

lemma wf_members_filter:
  assumes "list_all (\<lambda>(k, v). wf_json v) kvs"
  shows "filter (\<lambda>(k, v). v \<noteq> JUndef) kvs = kvs"
proof -
  have "\<forall>kv \<in> set kvs. (case kv of (k, v) \<Rightarrow> v \<noteq> JUndef)"
    using assms wf_not_undef by (auto simp: list_all_iff)
  then show ?thesis by (simp add: filter_id_conv)
qed

lemma stringify_array:
  "xs \<noteq> [] \<Longrightarrow>
     stringify n (JArr xs) @ rest
       = CHR ''['' # CHR 0x0A # indent (n + 2)
         @ join (separator (n + 2)) (map (stringify (n + 2)) xs) @ closing n CHR '']'' @ rest"
  by (simp add: separator_def closing_def)

lemma stringify_object:
  assumes "kvs \<noteq> []" and "list_all (\<lambda>(k, v). wf_json v) kvs"
  shows "stringify n (JObj kvs) @ rest
       = CHR ''{'' # CHR 0x0A # indent (n + 2)
         @ join (separator (n + 2)) (map (member_text (n + 2)) kvs) @ closing n CHR ''}'' @ rest"
proof -
  have "(\<lambda>(k, v). quote k @ '': '' @ stringify (n + 2) v) = member_text (n + 2)"
    by (auto simp: member_text_def fun_eq_iff)
  then show ?thesis
    using assms wf_members_filter [OF assms(2)] by (simp add: separator_def closing_def)
qed

lemma member_join_head:
  assumes "kvs \<noteq> []"
  shows "\<exists>cs. join sep (map (member_text m) kvs) @ t = CHR 0x22 # cs"
proof -
  obtain kv ys where kvs: "kvs = kv # ys" using assms by (cases kvs) auto
  show ?thesis using kvs by (cases ys) (simp_all add: member_text_def quote_def)
qed

lemma roundtrips_array:
  assumes "\<forall>x \<in> set xs. roundtrips x"
  shows "roundtrips (JArr xs)"
  unfolding roundtrips_def
proof (intro allI impI)
  fix n rest fuel
  assume ne: "number_end rest" and bound: "length (stringify n (JArr xs)) + length rest < fuel"
  from bound obtain f where fuel: "fuel = Suc f" by (cases fuel) auto
  show "parse_value fuel (stringify n (JArr xs) @ rest) = Some (JArr xs, rest)"
  proof (cases "xs = []")
    case True
    then show ?thesis
      using fuel by (simp add: parse_value.simps skip_ws_Cons json_ws_def)
  next
    case False
    let ?body = "join (separator (n + 2)) (map (stringify (n + 2)) xs) @ closing n CHR '']'' @ rest"
    from join_head [OF False, of "separator (n + 2)" "n + 2" "closing n CHR '']'' @ rest"]
    obtain d ds where hd: "?body = d # ds" "\<not> json_ws d" "d \<noteq> CHR '']''" by blast
    have skip: "skip_ws (CHR 0x0A # indent (n + 2) @ ?body) = d # ds"
      using skip_ws_append [OF ws_indent, of "n + 2" ?body] hd by (simp add: skip_ws_Cons)
    have len: "length (stringify n (JArr xs) @ rest) = Suc (Suc (n + 2 + length ?body))"
      unfolding stringify_array [OF False] by (simp add: indent_def)
    have b: "length (join (separator (n + 2)) (map (stringify (n + 2)) xs))
               + length (closing n CHR '']'') + length rest < f"
      using bound fuel len by simp
    have "parse_elements f ?body = Some (xs, rest)"
      using assms False b by (rule parse_elements_join)
    then have "parse_elements f (CHR 0x0A # indent (n + 2) @ ?body) = Some (xs, rest)"
      using parse_elements_skip_ws [OF ws_indent, of f "n + 2" ?body] by simp
    then show ?thesis
      unfolding stringify_array [OF False] fuel
      using skip hd by (simp add: parse_value.simps skip_ws_Cons json_ws_def)
  qed
qed

lemma roundtrips_object:
  assumes "\<forall>kv \<in> set kvs. roundtrips (snd kv)"
    and "distinct (map fst kvs)" and "list_all (\<lambda>(k, v). wf_json v) kvs"
  shows "roundtrips (JObj kvs)"
  unfolding roundtrips_def
proof (intro allI impI)
  fix n rest fuel
  assume ne: "number_end rest" and bound: "length (stringify n (JObj kvs)) + length rest < fuel"
  from bound obtain f where fuel: "fuel = Suc f" by (cases fuel) auto
  show "parse_value fuel (stringify n (JObj kvs) @ rest) = Some (JObj kvs, rest)"
  proof (cases "kvs = []")
    case True
    then show ?thesis
      using fuel by (simp add: parse_value.simps skip_ws_Cons json_ws_def)
  next
    case False
    let ?body = "join (separator (n + 2)) (map (member_text (n + 2)) kvs) @ closing n CHR ''}'' @ rest"
    from member_join_head [OF False, of "separator (n + 2)" "n + 2" "closing n CHR ''}'' @ rest"]
    obtain ds where hd: "?body = CHR 0x22 # ds" by blast
    have skip: "skip_ws (CHR 0x0A # indent (n + 2) @ ?body) = CHR 0x22 # ds"
      using skip_ws_append [OF ws_indent, of "n + 2" ?body] hd by (simp add: skip_ws_Cons json_ws_def)
    have len: "length (stringify n (JObj kvs) @ rest) = Suc (Suc (n + 2 + length ?body))"
      unfolding stringify_object [OF False assms(3)] by (simp add: indent_def)
    have b: "length (join (separator (n + 2)) (map (member_text (n + 2)) kvs))
               + length (closing n CHR ''}'') + length rest < f"
      using bound fuel len by simp
    have "parse_members f ?body = Some (kvs, rest)"
      using assms(1) False b by (rule parse_members_join)
    then have "parse_members f (CHR 0x0A # indent (n + 2) @ ?body) = Some (kvs, rest)"
      using parse_members_skip_ws [OF ws_indent, of f "n + 2" ?body] by simp
    then show ?thesis
      unfolding stringify_object [OF False assms(3)] fuel
      using skip object_of_distinct [OF assms(2)]
      by (simp add: parse_value.simps skip_ws_Cons json_ws_def)
  qed
qed

lemma roundtrips_number: "roundtrips (JNum i)"
  unfolding roundtrips_def
proof (intro allI impI)
  fix n rest fuel
  assume ne: "number_end rest" and bound: "length (stringify n (JNum i)) + length rest < fuel"
  from bound obtain f where fuel: "fuel = Suc f" by (cases fuel) auto
  from show_int_head [of i] obtain c cs where h: "show_int i = c # cs" "c = CHR ''-'' \<or> is_digit c"
    by blast
  have "parse_number (c # cs @ rest) = Some (JNum i, rest)"
    using parse_number_show_int [OF ne, of i] h by simp
  then show "parse_value fuel (stringify n (JNum i) @ rest) = Some (JNum i, rest)"
    using fuel h number_start [OF h(2)] by (simp add: parse_value.simps skip_ws_Cons)
qed

lemma roundtripsI:
  assumes "\<And>n rest f. number_end rest \<Longrightarrow> parse_value (Suc f) (stringify n x @ rest) = Some (x, rest)"
  shows "roundtrips x"
  unfolding roundtrips_def
proof (intro allI impI)
  fix n rest fuel
  assume ne: "number_end rest" and bound: "length (stringify n x) + length rest < fuel"
  from bound obtain f where "fuel = Suc f" by (cases fuel) auto
  then show "parse_value fuel (stringify n x @ rest) = Some (x, rest)"
    using assms [OF ne] by simp
qed

lemma roundtrips_scalar:
  "roundtrips JNull" "roundtrips (JBool b)" "roundtrips (JStr s)"
proof -
  show "roundtrips JNull"
    by (rule roundtripsI) (simp add: parse_value.simps skip_ws_Cons json_ws_def)
  show "roundtrips (JBool b)"
    by (rule roundtripsI) (simp add: parse_value.simps skip_ws_Cons json_ws_def)
  show "roundtrips (JStr s)"
    by (rule roundtripsI)
       (simp add: parse_value.simps skip_ws_Cons json_ws_def quote_def parse_string_quoted)
qed

lemma roundtrips_wf: "wf_json j \<Longrightarrow> roundtrips j"
proof (induction j)
  case (JArr xs)
  then have "\<forall>x \<in> set xs. roundtrips x" by (simp add: list_all_iff)
  then show ?case by (rule roundtrips_array)
next
  case (JObj kvs)
  have "\<forall>kv \<in> set kvs. roundtrips (snd kv)"
  proof
    fix kv assume mem: "kv \<in> set kvs"
    obtain k v where kv: "kv = (k, v)" by (cases kv)
    have "wf_json v" using JObj.prems mem kv by (auto simp: list_all_iff)
    moreover have "v \<in> Basic_BNFs.snds kv" using kv by simp
    ultimately show "roundtrips (snd kv)" using JObj.IH [OF mem] kv by simp
  qed
  then show ?case using JObj.prems by (intro roundtrips_object) simp_all
qed (simp_all add: roundtrips_scalar roundtrips_number)

lemma JSON_parse_stringify: "wf_json j \<Longrightarrow> JSON_parse (stringify 0 j) = Some j"
proof -
  assume "wf_json j"
  then have "roundtrips j" by (rule roundtrips_wf)
  then have "parse_value (Suc (length (stringify 0 j))) (stringify 0 j @ []) = Some (j, [])"
    unfolding roundtrips_def by (simp add: number_end_def)
  then show ?thesis by (simp add: JSON_parse_def skip_ws_def)
qed

lemma read_opt_string_opt_string: "read_opt_string (opt_string v) = Some v"
  by (cases v) (simp_all add: read_opt_string_def opt_string_def)

lemma read_image_image_json: "read_image (image_json img) = Some img"
  by (simp add: read_image_def image_json_def read_opt_string_opt_string)

lemma read_images_image_json: "read_images (map image_json images) = Some images"
  by (induction images) (simp_all add: read_image_image_json)

lemma wf_opt_string: "wf_json (opt_string v)"
  by (cases v) (simp_all add: opt_string_def)

lemma wf_mapping_document: "wf_json (mapping_document images)"
  by (simp add: mapping_document_def instructions_def image_json_def list_all_iff wf_opt_string)

text \<open>
  Claim C9. Saving a mapping and loading the text written gives the mapping back:
  every image with its file name, path, size, suggested product and entry id, the
  last two also when they are \<open>null\<close>. This holds for every list of images, and so
  for every mapping the helper builds.
\<close>

theorem mapping_round_trip: "load_mapping (save_mapping images) = Some images"
  using JSON_parse_stringify [OF wf_mapping_document, of images]
  by (simp add: load_mapping_def save_mapping_def)
     (simp add: mapping_document_def read_images_image_json)

lemma built_mapping_example:
  "build_mapping ex_files =
     [\<lparr>img_filename = ''Aarhus-Accent-Chair.JPG'', img_path = ''/pub/Aarhus-Accent-Chair.JPG'',
        img_size = 1234, img_suggestedProduct = Some ''Aarhus Accent Chair'',
        img_entryId = Some ''b7bfc2b0-8d40-4ccf-b3c2-e9154260753d''\<rparr>,
      \<lparr>img_filename = ''logo \"v2\".png'', img_path = ''/pub/logo \"v2\".png'',
        img_size = 0, img_suggestedProduct = None, img_entryId = None\<rparr>]"
  by code_simp

theorem mapping_round_trip_witness:
  "load_mapping (save_mapping (build_mapping ex_files)) =
     Some [\<lparr>img_filename = ''Aarhus-Accent-Chair.JPG'', img_path = ''/pub/Aarhus-Accent-Chair.JPG'',
             img_size = 1234, img_suggestedProduct = Some ''Aarhus Accent Chair'',
             img_entryId = Some ''b7bfc2b0-8d40-4ccf-b3c2-e9154260753d''\<rparr>,
           \<lparr>img_filename = ''logo \"v2\".png'', img_path = ''/pub/logo \"v2\".png'',
             img_size = 0, img_suggestedProduct = None, img_entryId = None\<rparr>]"
  using mapping_round_trip [of "build_mapping ex_files"] built_mapping_example by simp


end
